theory Spec2Isabelle
  imports Main "HOL-Library.Char_ord" "HOL-Library.List_Lexorder"
begin

section \<open>ABCU advising assistant: course catalog loading and queries\<close>

text \<open>
  A shallow embedding of \<^verbatim>\<open>final.cpp\<close>. A \<^verbatim>\<open>std::string\<close> is a \<open>string\<close> (a list of
  bytes), a \<^verbatim>\<open>std::vector\<close> is a list, and the \<^verbatim>\<open>std::map<std::string, Course>\<close> is an
  association list kept in strictly ascending key order, which is the order in which a
  \<^verbatim>\<open>std::map\<close> is iterated. Strings are compared as \<^verbatim>\<open>std::string\<close> compares them:
  lexicographically on unsigned bytes. The program never calls \<^verbatim>\<open>setlocale\<close>, so
  \<^verbatim>\<open>std::isspace\<close> and \<^verbatim>\<open>std::toupper\<close> are those of the "C" locale.
\<close>

subsection \<open>Data model\<close>

record Course =
  id_c :: string
  title :: string
  prereqs :: "string list"

type_synonym catalog = "(string \<times> Course) list"

text \<open>A default-constructed \<^verbatim>\<open>Course\<close>: two empty strings and an empty vector.\<close>

definition default_Course :: Course where
  "default_Course = \<lparr>id_c = [], title = [], prereqs = []\<rparr>"

subsection \<open>Characters\<close>

definition dquote :: char where
  "dquote = CHR 0x22"

definition comma :: char where
  "comma = CHR 0x2C"

text \<open>\<^verbatim>\<open>std::isspace\<close> in the "C" locale: space, \<^verbatim>\<open>\t\<close>, \<^verbatim>\<open>\n\<close>, \<^verbatim>\<open>\v\<close>, \<^verbatim>\<open>\f\<close>, \<^verbatim>\<open>\r\<close>.\<close>

definition isspace :: "char \<Rightarrow> bool" where
  "isspace c \<longleftrightarrow>
     c = CHR 0x20 \<or> c = CHR 0x09 \<or> c = CHR 0x0A \<or> c = CHR 0x0B \<or> c = CHR 0x0C \<or> c = CHR 0x0D"

text \<open>\<^verbatim>\<open>std::toupper\<close> in the "C" locale: the 26 letters a..z lose 32, all else is kept.\<close>

definition toupper :: "char \<Rightarrow> char" where
  "toupper c =
     (if CHR 0x61 \<le> c \<and> c \<le> CHR 0x7A then char_of (of_char c - (32::nat)) else c)"

subsection \<open>trim and toUpper\<close>

text \<open>The first loop of \<^verbatim>\<open>trim\<close>: advance \<open>start\<close> over leading whitespace.\<close>

function trim_start :: "string \<Rightarrow> nat \<Rightarrow> nat" where
  "trim_start s start =
     (if start < length s \<and> isspace (s ! start) then trim_start s (Suc start) else start)"
  by pat_completeness auto
termination
  by (relation "measure (\<lambda>(s, start). length s - start)") auto

declare trim_start.simps [simp del]

text \<open>The second loop of \<^verbatim>\<open>trim\<close>: move \<open>end\<close> back over trailing whitespace.\<close>

function trim_end :: "string \<Rightarrow> nat \<Rightarrow> nat \<Rightarrow> nat" where
  "trim_end s start fin =
     (if fin > start \<and> isspace (s ! (fin - 1)) then trim_end s start (fin - 1) else fin)"
  by pat_completeness auto
termination
  by (relation "measure (\<lambda>(s, start, fin). fin)") auto

declare trim_end.simps [simp del]

text \<open>\<^verbatim>\<open>s.substr(start, end - start)\<close>; \<open>start\<close> never exceeds the size, so it cannot throw.\<close>

definition trim :: "string \<Rightarrow> string" where
  "trim s =
     (let start = trim_start s 0;
          fin = trim_end s start (length s)
      in take (fin - start) (drop start s))"

definition toUpper :: "string \<Rightarrow> string" where
  "toUpper s = map toupper s"

subsection \<open>parseCSVLine\<close>

text \<open>
  The scanning loop of \<^verbatim>\<open>parseCSVLine\<close>, on the characters from index \<open>i\<close> on, with the
  loop's state \<open>inQuotes\<close>, \<open>field\<close> and \<open>fields\<close>. The test
  \<^verbatim>\<open>i + 1 < line.size() && line[i + 1] == '"'\<close> looks at the next remaining character.
\<close>

fun parse_loop :: "string \<Rightarrow> bool \<Rightarrow> string \<Rightarrow> string list \<Rightarrow> string list" where
  "parse_loop [] inQuotes field flds = flds @ [field]"
| "parse_loop (ch # rest) True field flds =
     (if ch = dquote then
        (case rest of
           [] \<Rightarrow> parse_loop rest False field flds
         | nxt # rest' \<Rightarrow>
             if nxt = dquote then parse_loop rest' True (field @ [dquote]) flds
             else parse_loop rest False field flds)
      else parse_loop rest True (field @ [ch]) flds)"
| "parse_loop (ch # rest) False field flds =
     (if ch = dquote then parse_loop rest True field flds
      else if ch = comma then parse_loop rest False [] (flds @ [field])
      else parse_loop rest False (field @ [ch]) flds)"

definition parseCSVLine :: "string \<Rightarrow> string list" where
  "parseCSVLine line = map trim (parse_loop line False [] [])"

text \<open>
  For comparison with the parser, the plain split of a text at every comma, as the
  specification words it ("splits on a delimiter"): the result is never empty, and a text
  without a comma is its own single field.
\<close>

fun split_commas :: "string \<Rightarrow> string list" where
  "split_commas [] = [[]]"
| "split_commas (ch # rest) =
     (if ch = comma then [] # split_commas rest
      else (ch # hd (split_commas rest)) # tl (split_commas rest))"

subsection \<open>The catalog as a \<^verbatim>\<open>std::map\<close>\<close>

text \<open>Insertion or assignment at a key, keeping the keys ascending.\<close>

fun map_insert :: "string \<Rightarrow> Course \<Rightarrow> catalog \<Rightarrow> catalog" where
  "map_insert k v [] = [(k, v)]"
| "map_insert k v ((k', v') # m) =
     (if k = k' then (k, v) # m
      else if k < k' then (k, v) # (k', v') # m
      else (k', v') # map_insert k v m)"

text \<open>\<^verbatim>\<open>courses.find(k)\<close>: \<open>None\<close> stands for \<^verbatim>\<open>courses.end()\<close>.\<close>

definition map_find :: "catalog \<Rightarrow> string \<Rightarrow> Course option" where
  "map_find m k = map_of m k"

text \<open>\<^verbatim>\<open>courses[k]\<close>: a missing key is inserted with a default-constructed value.\<close>

definition subscript :: "catalog \<Rightarrow> string \<Rightarrow> catalog" where
  "subscript m k = (case map_find m k of None \<Rightarrow> map_insert k default_Course m | Some c \<Rightarrow> m)"

text \<open>
  A write through the reference \<^verbatim>\<open>Course& course = courses[id]\<close>. Nothing is ever erased
  while the reference lives, so the key is present whenever this is used.
\<close>

definition via_ref :: "string \<Rightarrow> (Course \<Rightarrow> Course) \<Rightarrow> catalog \<Rightarrow> catalog" where
  "via_ref k f m = (case map_find m k of None \<Rightarrow> m | Some c \<Rightarrow> map_insert k (f c) m)"

subsection \<open>loadCoursesFromFile\<close>

text \<open>
  \<^verbatim>\<open>std::to_string\<close> of a \<^verbatim>\<open>size_t\<close>: the decimal digits. The line counter is a \<open>nat\<close>: a
  file of \<open>2 ^ 64\<close> lines does not exist.
\<close>

definition digit_char :: "nat \<Rightarrow> char" where
  "digit_char d = char_of (48 + d)"

function to_string :: "nat \<Rightarrow> string" where
  "to_string n = (if n < 10 then [digit_char n] else to_string (n div 10) @ [digit_char (n mod 10)])"
  by pat_completeness auto
termination
  by (relation "measure (\<lambda>n. n)") auto

declare to_string.simps [simp del]

text \<open>
  The lines that repeated \<^verbatim>\<open>std::getline(in, line)\<close> yields for a file's content: the text
  between newline characters, and a last unterminated line when it is not empty.
\<close>

fun getlines :: "string \<Rightarrow> string \<Rightarrow> string list" where
  "getlines line [] = (if line = [] then [] else [line])"
| "getlines line (ch # rest) =
     (if ch = CHR 0x0A then line # getlines [] rest else getlines (line @ [ch]) rest)"

text \<open>The local \<^verbatim>\<open>Course placeholder\<close> once its two assignments are done.\<close>

definition placeholder :: "string \<Rightarrow> Course" where
  "placeholder prereqId = \<lparr>id_c = prereqId, title = [], prereqs = []\<rparr>"

text \<open>One round of the loop over \<^verbatim>\<open>fields[2..]\<close>, for the course \<open>id\<close> being defined.\<close>

definition add_prereq :: "string \<Rightarrow> string \<Rightarrow> catalog \<Rightarrow> catalog" where
  "add_prereq cid field courses =
     (let prereqId = toUpper (trim field) in
      if prereqId = [] then courses
      else
        let courses1 = via_ref cid (\<lambda>c. c\<lparr>prereqs := prereqs c @ [prereqId]\<rparr>) courses
        in if map_find courses1 prereqId = None
           then map_insert prereqId (placeholder prereqId) courses1
           else courses1)"

fun prereq_loop :: "string \<Rightarrow> string list \<Rightarrow> catalog \<Rightarrow> catalog" where
  "prereq_loop cid [] courses = courses"
| "prereq_loop cid (field # rest) courses = prereq_loop cid rest (add_prereq cid field courses)"

text \<open>The body of the reading loop after the line has been split into fields.\<close>

definition process_fields ::
  "nat \<Rightarrow> string list \<Rightarrow> catalog \<times> string list \<Rightarrow> catalog \<times> string list" where
  "process_fields lineNum flds st =
     (case st of (courses, warnings) \<Rightarrow>
      if length flds < 2 then
        (courses, warnings @ [''Line '' @ to_string lineNum @ '' skipped: fewer than 2 fields''])
      else
        let rawId = trim (flds ! 0);
            cid = toUpper rawId;
            ttl = flds ! 1
        in if cid = [] then
             (courses, warnings @ [''Line '' @ to_string lineNum @ '' skipped: empty course ID''])
           else
             let warnings1 =
                   (if ttl = [] then
                      warnings @ [''Line '' @ to_string lineNum @ '' has empty title for course '' @ cid]
                    else warnings);
                 courses1 = subscript courses cid;
                 courses2 = via_ref cid (\<lambda>c. c\<lparr>id_c := cid\<rparr>) courses1;
                 courses3 = (if ttl \<noteq> [] then via_ref cid (\<lambda>c. c\<lparr>title := ttl\<rparr>) courses2
                             else courses2)
             in (prereq_loop cid (drop 2 flds) courses3, warnings1))"

text \<open>The whole body of the reading loop, \<open>lineNum\<close> already incremented.\<close>

definition process_line ::
  "nat \<Rightarrow> string \<Rightarrow> catalog \<times> string list \<Rightarrow> catalog \<times> string list" where
  "process_line lineNum line st =
     (if trim line = [] then st else process_fields lineNum (parseCSVLine line) st)"

fun load_loop :: "nat \<Rightarrow> string list \<Rightarrow> catalog \<times> string list \<Rightarrow> catalog \<times> string list" where
  "load_loop lineNum [] st = st"
| "load_loop lineNum (line # rest) st =
     load_loop (Suc lineNum) rest (process_line (Suc lineNum) line st)"

text \<open>
  The file system is a partial map from paths to contents; a path outside its domain cannot
  be opened. The result is the returned flag with the two reference parameters as the
  function leaves them. The message written to \<^verbatim>\<open>std::cerr\<close> is not recorded.
\<close>

type_synonym filesystem = "string \<rightharpoonup> string"

definition loadCoursesFromFile ::
  "filesystem \<Rightarrow> string \<Rightarrow> catalog \<Rightarrow> string list \<Rightarrow> bool \<times> catalog \<times> string list" where
  "loadCoursesFromFile fs filename courses warnings =
     (case fs filename of
        None \<Rightarrow> (False, courses, warnings)
      | Some content \<Rightarrow>
          (case load_loop 0 (getlines [] content) ([], []) of
             (courses', warnings') \<Rightarrow> (True, courses', warnings')))"

text \<open>
  The value that \<^verbatim>\<open>courses[id]\<close> refers to: the record already stored under the key, or
  the default-constructed one that the subscript inserts.
\<close>

definition old_entry :: "catalog \<Rightarrow> string \<Rightarrow> Course" where
  "old_entry m cid = (case map_find m cid of None \<Rightarrow> default_Course | Some c \<Rightarrow> c)"

text \<open>
  For stating what a line adds: the prerequisite identifiers that a list of fields
  contributes, each field trimmed and uppercased, the empty results left out.
\<close>

definition prereq_ids :: "string list \<Rightarrow> string list" where
  "prereq_ids flds = filter (\<lambda>p. p \<noteq> []) (map (\<lambda>f. toUpper (trim f)) flds)"

text \<open>
  The invariant of the catalog during a load: keys strictly ascending, every record stored
  under its own non-empty uppercase identifier, no empty prerequisite, and every
  prerequisite a key of the catalog.
\<close>

definition entry_ok :: "catalog \<Rightarrow> string \<Rightarrow> Course \<Rightarrow> bool" where
  "entry_ok m k c \<longleftrightarrow>
     id_c c = k \<and> k \<noteq> [] \<and> toUpper k = k \<and> [] \<notin> set (prereqs c) \<and>
     list_all (\<lambda>p. map_find m p \<noteq> None) (prereqs c)"

definition catalog_ok :: "catalog \<Rightarrow> bool" where
  "catalog_ok m \<longleftrightarrow> sorted_wrt (<) (map fst m) \<and> list_all (\<lambda>(k, c). entry_ok m k c) m"

text \<open>
  An example file system for concrete checks: one readable file of six lines, among them a
  blank line, a line of one field, a line without an identifier and a line without a title.
\<close>

definition file_of :: "string list \<Rightarrow> string" where
  "file_of lines = concat (map (\<lambda>l. l @ [CHR 0x0A]) lines)"

definition sample_lines :: "string list" where
  "sample_lines =
     [''csci300,Foo,csci101,math201'', ''CSCI101,Bar'', '' '', ''x'', '',t'',
      ''csci200,,csci101,,'']"

definition sample_fs :: filesystem where
  "sample_fs = [''courses.csv'' \<mapsto> file_of sample_lines]"

text \<open>
  For checking the model of \<^verbatim>\<open>std::to_string\<close>: the number that a string of decimal digits
  denotes.
\<close>

definition digits_value :: "string \<Rightarrow> nat" where
  "digits_value s = foldl (\<lambda>v ch. 10 * v + (of_char ch - 48)) 0 s"

text \<open>What loading that file gives.\<close>

definition sample_catalog :: catalog where
  "sample_catalog =
     [(''CSCI101'', \<lparr>id_c = ''CSCI101'', title = ''Bar'', prereqs = []\<rparr>),
      (''CSCI200'', \<lparr>id_c = ''CSCI200'', title = [], prereqs = [''CSCI101'']\<rparr>),
      (''CSCI300'', \<lparr>id_c = ''CSCI300'', title = ''Foo'', prereqs = [''CSCI101'', ''MATH201'']\<rparr>),
      (''MATH201'', \<lparr>id_c = ''MATH201'', title = [], prereqs = []\<rparr>)]"

definition sample_warnings :: "string list" where
  "sample_warnings =
     [''Line 4 skipped: fewer than 2 fields'', ''Line 5 skipped: empty course ID'',
      ''Line 6 has empty title for course CSCI200'']"

subsection \<open>Queries\<close>

text \<open>
  Output on \<^verbatim>\<open>std::cout\<close> is the list of the lines written, each ended by
  \<^verbatim>\<open>std::endl\<close> in the source. \<^verbatim>\<open>courses.at(id)\<close> throws \<^verbatim>\<open>std::out_of_range\<close> for a missing
  key; nothing catches it, so the call then ends in the error.
\<close>

datatype error = OutOfRange

text \<open>The first loop of \<^verbatim>\<open>printSortedCourseList\<close>, in the map's iteration order.\<close>

fun collect_ids :: "catalog \<Rightarrow> string list \<Rightarrow> string list" where
  "collect_ids [] ids = ids"
| "collect_ids ((k, c) # kvs) ids =
     collect_ids kvs (if title c \<noteq> [] then ids @ [id_c c] else ids)"

text \<open>The second loop, over the sorted identifiers.\<close>

fun print_ids :: "catalog \<Rightarrow> string list \<Rightarrow> string list \<Rightarrow> error + string list" where
  "print_ids courses [] out = Inr out"
| "print_ids courses (i # ids) out =
     (case map_find courses i of
        None \<Rightarrow> Inl OutOfRange
      | Some c \<Rightarrow> print_ids courses ids (out @ [i @ '', '' @ title c]))"

definition printSortedCourseList :: "catalog \<Rightarrow> error + string list" where
  "printSortedCourseList courses =
     (let ids = sort (collect_ids courses []) in
      case print_ids courses ids
             ['''', ''Computer Science Course List'', ''----------------------------''] of
        Inl e \<Rightarrow> Inl e
      | Inr out \<Rightarrow> Inr (out @ ['''']))"

text \<open>The loop of \<^verbatim>\<open>printCourseInfo\<close> over the prerequisites of the course found.\<close>

fun print_prereqs :: "catalog \<Rightarrow> string list \<Rightarrow> string list \<Rightarrow> string list" where
  "print_prereqs courses [] out = out"
| "print_prereqs courses (pid # pids) out =
     print_prereqs courses pids
       (out @
        [case map_find courses pid of
           None \<Rightarrow> ''  - '' @ pid @ '': Title unknown''
         | Some p \<Rightarrow>
             if title p \<noteq> [] then ''  - '' @ id_c p @ '': '' @ title p
             else ''  - '' @ pid @ '': Title unknown''])"

definition printCourseInfo :: "catalog \<Rightarrow> string \<Rightarrow> string list" where
  "printCourseInfo courses queryRaw =
     (let query = toUpper (trim queryRaw) in
      if query = [] then [''Error: empty course ID.'']
      else
        case map_find courses query of
          None \<Rightarrow> [''Course not found: '' @ query]
        | Some c \<Rightarrow>
            if title c = [] then [''Course not found: '' @ query]
            else
              let out = ['''', id_c c @ '': '' @ title c];
                  out' = (if prereqs c = [] then out @ [''Prerequisites: None'']
                          else print_prereqs courses (prereqs c) (out @ [''Prerequisites:'']))
              in out' @ [''''])"

text \<open>
  For stating the output of \<^verbatim>\<open>printCourseInfo\<close>: the line written for one prerequisite
  identifier, which depends on one lookup of that identifier only.
\<close>

definition prereq_line :: "catalog \<Rightarrow> string \<Rightarrow> string" where
  "prereq_line cat pid =
     (case map_find cat pid of
        None \<Rightarrow> ''  - '' @ pid @ '': Title unknown''
      | Some p \<Rightarrow>
          if title p \<noteq> [] then ''  - '' @ id_c p @ '': '' @ title p
          else ''  - '' @ pid @ '': Title unknown'')"

text \<open>
  The full listing as the specification words it: the records with a non-empty title,
  ordered by identifier, each as the pair of its identifier and title.
\<close>

definition listSorted :: "catalog \<Rightarrow> (string \<times> string) list" where
  "listSorted cat =
     map (\<lambda>(k, c). (k, title c)) (sort_key fst (filter (\<lambda>(k, c). title c \<noteq> []) cat))"

subsection \<open>The menu's handlers in main\<close>

text \<open>
  The two variables of \<^verbatim>\<open>main\<close> that live across menu rounds. Each handler returns the
  state after the round and the lines written to \<^verbatim>\<open>std::cout\<close>; an uncaught exception ends
  the program, which is the \<open>Inl\<close> result.
\<close>

record state =
  courses :: catalog
  dataLoaded :: bool

text \<open>Choice 1, from the file name read from the input on.\<close>

definition menu_load :: "filesystem \<Rightarrow> string \<Rightarrow> state \<Rightarrow> state \<times> string list" where
  "menu_load fs filenameRaw st =
     (let filename = trim filenameRaw in
      if filename = [] then (st, [''Error: file name cannot be empty.''])
      else
        case loadCoursesFromFile fs filename (courses st) [] of
          (ok, courses', warnings) \<Rightarrow>
            if ok then
              (\<lparr>courses = courses', dataLoaded = True\<rparr>,
               [''Data loaded successfully from '' @ filename] @
               (if warnings \<noteq> [] then
                  [''Note: Some lines were skipped or had issues:''] @
                  map (\<lambda>w. ''  - '' @ w) warnings
                else []))
            else (\<lparr>courses = courses', dataLoaded = False\<rparr>, []))"

text \<open>Choice 2.\<close>

definition menu_print_list :: "state \<Rightarrow> error + state \<times> string list" where
  "menu_print_list st =
     (if \<not> dataLoaded st then Inr (st, [''Please load data first using option 1.''])
      else case printSortedCourseList (courses st) of
             Inl e \<Rightarrow> Inl e
           | Inr out \<Rightarrow> Inr (st, out))"

text \<open>Choice 3, with the query line read from the input.\<close>

definition menu_print_course :: "state \<Rightarrow> string \<Rightarrow> state \<times> string list" where
  "menu_print_course st query =
     (if \<not> dataLoaded st then (st, [''Please load data first using option 1.''])
      else (st, [''Enter a course ID (e.g., CSCI300): ''] @ printCourseInfo (courses st) query))"

section \<open>Properties\<close>

subsection \<open>trim and toUpper\<close>

lemma trim_start_eq:
  "start \<le> length s \<Longrightarrow> trim_start s start = start + length (takeWhile isspace (drop start s))"
proof (induction s start rule: trim_start.induct)
  case (1 s start)
  show ?case
  proof (cases "start < length s \<and> isspace (s ! start)")
    case True
    then have d: "drop start s = s ! start # drop (Suc start) s"
      by (simp add: Cons_nth_drop_Suc)
    from True 1 have "trim_start s (Suc start) = Suc start + length (takeWhile isspace (drop (Suc start) s))"
      by simp
    with True d show ?thesis
      by (subst trim_start.simps) simp
  next
    case False
    then have "takeWhile isspace (drop start s) = []"
      by (cases "start < length s") (auto simp: Cons_nth_drop_Suc[symmetric] takeWhile_eq_Nil_iff hd_drop_conv_nth)
    with False show ?thesis
      by (subst trim_start.simps) auto
  qed
qed

lemma trim_end_eq:
  "start \<le> fin \<Longrightarrow> fin \<le> length s \<Longrightarrow>
   trim_end s start fin = start + length (dropWhile isspace (rev (take (fin - start) (drop start s))))"
proof (induction s start fin rule: trim_end.induct)
  case (1 s start fin)
  show ?case
  proof (cases "fin > start \<and> isspace (s ! (fin - 1))")
    case True
    then obtain n where n: "fin = Suc n" "start \<le> n" by (cases fin) auto
    have seg: "take (fin - start) (drop start s) = take (n - start) (drop start s) @ [s ! n]"
      using n 1(3) by (simp add: Suc_diff_le take_Suc_conv_app_nth)
    from True 1 n have "trim_end s start n = start + length (dropWhile isspace (rev (take (n - start) (drop start s))))"
      by simp
    with True n seg show ?thesis
      by (subst trim_end.simps) simp
  next
    case False
    show ?thesis
    proof (cases "fin > start")
      case True
      then obtain n where n: "fin = Suc n" "start \<le> n" by (cases fin) auto
      have seg: "take (fin - start) (drop start s) = take (n - start) (drop start s) @ [s ! n]"
        using n 1(3) by (simp add: Suc_diff_le take_Suc_conv_app_nth)
      from False True n have "\<not> isspace (s ! n)" by simp
      with seg n 1(3) False show ?thesis
        by (subst trim_end.simps) (simp add: Suc_diff_le)
    next
      case False
      with 1(2) show ?thesis
        by (subst trim_end.simps) simp
    qed
  qed
qed

lemma trim_eq: "trim s = rev (dropWhile isspace (rev (dropWhile isspace s)))"
proof -
  let ?a = "length (takeWhile isspace s)"
  let ?t = "dropWhile isspace s"
  have st: "trim_start s 0 = ?a"
    using trim_start_eq[of 0 s] by simp
  have dr: "drop ?a s = ?t"
    by (simp add: dropWhile_eq_drop)
  have le: "?a \<le> length s"
    by (simp add: length_takeWhile_le)
  have len: "length s - ?a = length ?t"
    by (simp add: dropWhile_eq_drop)
  have en: "trim_end s ?a (length s) = ?a + length (dropWhile isspace (rev ?t))"
    using trim_end_eq[OF le, of s] by (simp add: dr len del: length_dropWhile_le)
  have "trim s = take (length (dropWhile isspace (rev ?t))) ?t"
    by (simp add: trim_def st en dr)
  also have "\<dots> = rev (dropWhile isspace (rev ?t))"
  proof -
    have "rev ?t = takeWhile isspace (rev ?t) @ dropWhile isspace (rev ?t)" by simp
    then have "?t = rev (dropWhile isspace (rev ?t)) @ rev (takeWhile isspace (rev ?t))"
      by (metis rev_append rev_rev_ident)
    then show ?thesis
      by (metis append_eq_conv_conj length_rev)
  qed
  finally show ?thesis .
qed

lemma dropWhile_rev_Nil:
  "dropWhile P (rev (dropWhile P s)) = [] \<longleftrightarrow> (\<forall>x\<in>set s. P x)"
proof
  assume a: "dropWhile P (rev (dropWhile P s)) = []"
  have "dropWhile P s = []"
  proof (rule ccontr)
    assume n: "dropWhile P s \<noteq> []"
    then have "\<not> P (hd (dropWhile P s))" by (rule hd_dropWhile)
    moreover from n have "hd (dropWhile P s) \<in> set (rev (dropWhile P s))" by simp
    ultimately show False using a by (auto simp del: set_rev)
  qed
  then show "\<forall>x\<in>set s. P x" by simp
next
  assume "\<forall>x\<in>set s. P x"
  then have "dropWhile P s = []" by simp
  then show "dropWhile P (rev (dropWhile P s)) = []" by (simp del: dropWhile_eq_Nil_conv)
qed

lemma trim_Nil_iff: "trim s = [] \<longleftrightarrow> (\<forall>c\<in>set s. isspace c)"
  unfolding trim_eq rev_is_Nil_conv by (rule dropWhile_rev_Nil)

lemma trim_not_space_ends:
  assumes "trim s \<noteq> []"
  shows "\<not> isspace (hd (trim s))" and "\<not> isspace (last (trim s))"
proof -
  let ?t = "dropWhile isspace s"
  let ?u = "dropWhile isspace (rev ?t)"
  from assms have u: "?u \<noteq> []" by (simp add: trim_eq)
  then have t: "?t \<noteq> []" by (auto simp del: dropWhile_eq_Nil_conv)
  have "\<not> isspace (hd ?u)" using u by (rule hd_dropWhile)
  then show "\<not> isspace (last (trim s))"
    using u by (simp add: trim_eq last_rev)
  have "\<not> isspace (hd ?t)" using t by (rule hd_dropWhile)
  moreover have "hd (rev ?u) = hd ?t"
  proof -
    have "rev ?t = takeWhile isspace (rev ?t) @ ?u" by simp
    then have "?t = rev ?u @ rev (takeWhile isspace (rev ?t))"
      by (metis rev_append rev_rev_ident)
    then show ?thesis using u by (metis hd_append2 rev_is_Nil_conv)
  qed
  ultimately show "\<not> isspace (hd (trim s))" by (simp add: trim_eq)
qed

lemma trim_fixed:
  assumes "s = [] \<or> (\<not> isspace (hd s) \<and> \<not> isspace (last s))"
  shows "trim s = s"
proof (cases "s = []")
  case True then show ?thesis by (simp add: trim_eq)
next
  case False
  with assms have h: "\<not> isspace (hd s)" and l: "\<not> isspace (last s)" by auto
  from False h have "dropWhile isspace s = s" by (cases s) auto
  moreover from False l have "dropWhile isspace (rev s) = rev s"
    by (cases "rev s") (auto simp: last_rev[symmetric] simp del: last_rev)
  ultimately show ?thesis by (simp add: trim_eq)
qed

lemma trim_idem: "trim (trim s) = trim s"
  using trim_not_space_ends[of s] by (intro trim_fixed) blast

lemma of_char_toupper:
  "of_char (toupper c) = (if 97 \<le> (of_char c :: nat) \<and> (of_char c :: nat) \<le> 122 then of_char c - 32 else (of_char c :: nat))"
proof -
  have "(of_char c :: nat) < 256" by simp
  then show ?thesis by (auto simp: toupper_def less_eq_char_def)
qed

lemma isspace_of_char: "isspace c \<longleftrightarrow> (of_char c :: nat) \<in> {32, 9, 10, 11, 12, 13}"
  unfolding isspace_def by (auto simp: char_of_eq_iff[symmetric] simp flip: of_char_eq_iff[where 'a=nat])

lemma isspace_toupper: "isspace (toupper c) = isspace c"
  by (auto simp: isspace_of_char of_char_toupper)

lemma toupper_idem: "toupper (toupper c) = toupper c"
  by (auto simp flip: of_char_eq_iff[where 'a=nat] simp add: of_char_toupper)

lemma toUpper_idem: "toUpper (toUpper s) = toUpper s"
  by (simp add: toUpper_def toupper_idem)

lemma trim_toUpper: "trim (toUpper s) = toUpper (trim s)"
proof -
  have "isspace \<circ> toupper = isspace" by (auto simp: isspace_toupper)
  then show ?thesis
    by (simp add: trim_eq toUpper_def dropWhile_map rev_map)
qed

subsection \<open>parseCSVLine\<close>

lemma split_commas_not_Nil [simp]: "split_commas s \<noteq> []"
  by (induction s) auto













lemma parseCSVLine_trimmed:
  "f \<in> set (parseCSVLine line) \<Longrightarrow> trim f = f"
  by (auto simp: parseCSVLine_def trim_idem)

subsection \<open>The catalog\<close>

lemma map_find_eq: "map_find m = map_of m"
  by (rule ext) (simp add: map_find_def)

lemma map_find_map_insert: "map_find (map_insert k v m) = (map_find m)(k \<mapsto> v)"
  unfolding map_find_def by (induction m) (auto simp: fun_upd_twist)

lemma keys_map_insert: "fst ` set (map_insert k v m) = insert k (fst ` set m)"
proof -
  have "dom (map_of (map_insert k v m)) = insert k (dom (map_of m))"
    using map_find_map_insert[of k v m] by (simp add: map_find_eq)
  then show ?thesis by (simp only: dom_map_of_conv_image_fst)
qed

lemma sorted_map_insert:
  "sorted_wrt (<) (map fst m) \<Longrightarrow> sorted_wrt (<) (map fst (map_insert k v m))"
proof (induction m)
  case Nil
  then show ?case by simp
next
  case (Cons a m)
  obtain k' v' where a: "a = (k', v')" by (cases a)
  from Cons.prems have s: "sorted_wrt (<) (map fst m)" and lt: "\<forall>x\<in>set m. k' < fst x"
    by (auto simp: a)
  show ?case
  proof (cases "k = k'")
    case True
    with Cons.prems show ?thesis by (simp add: a)
  next
    case False
    show ?thesis
    proof (cases "k < k'")
      case True
      with lt s show ?thesis by (auto simp: a)
    next
      case ge: False
      with False have "k' < k" by auto
      moreover have "sorted_wrt (<) (map fst (map_insert k v m))" using s by (rule Cons.IH)
      moreover have "fst ` set (map_insert k v m) = insert k (fst ` set m)" by (rule keys_map_insert)
      ultimately show ?thesis using False ge lt by (auto simp: a)
    qed
  qed
qed

lemma map_find_subscript:
  "map_find (subscript m k) = (case map_find m k of None \<Rightarrow> (map_find m)(k \<mapsto> default_Course) | Some c \<Rightarrow> map_find m)"
  by (simp add: subscript_def map_find_map_insert split: option.splits)

lemma map_find_via_ref:
  "map_find (via_ref k f m) = (case map_find m k of None \<Rightarrow> map_find m | Some c \<Rightarrow> (map_find m)(k \<mapsto> f c))"
  by (simp add: via_ref_def map_find_map_insert split: option.splits)

lemma sorted_subscript:
  "sorted_wrt (<) (map fst m) \<Longrightarrow> sorted_wrt (<) (map fst (subscript m k))"
  by (simp add: subscript_def sorted_map_insert split: option.splits)

lemma sorted_via_ref:
  "sorted_wrt (<) (map fst m) \<Longrightarrow> sorted_wrt (<) (map fst (via_ref k f m))"
  by (simp add: via_ref_def sorted_map_insert split: option.splits)

lemma add_prereq_skip: "toUpper (trim f) = [] \<Longrightarrow> add_prereq cid f m = m"
  by (simp add: add_prereq_def)

lemma map_find_add_prereq:
  assumes "map_find m cid = Some c" and "toUpper (trim f) = p" and "p \<noteq> []"
  shows "map_find (add_prereq cid f m) k =
          (if k = cid then Some (c\<lparr>prereqs := prereqs c @ [p]\<rparr>)
           else case map_find m k of
                  Some e \<Rightarrow> Some e
                | None \<Rightarrow> if k = p then Some (placeholder p) else None)"
  using assms
  by (auto simp: add_prereq_def Let_def map_find_via_ref map_find_map_insert placeholder_def
      split: option.splits)

lemma sorted_add_prereq:
  "sorted_wrt (<) (map fst m) \<Longrightarrow> sorted_wrt (<) (map fst (add_prereq cid f m))"
  by (simp add: add_prereq_def Let_def sorted_via_ref sorted_map_insert)

lemma sorted_prereq_loop:
  "sorted_wrt (<) (map fst m) \<Longrightarrow> sorted_wrt (<) (map fst (prereq_loop cid flds m))"
  by (induction flds arbitrary: m) (simp_all add: sorted_add_prereq)

lemma map_find_prereq_loop:
  "map_find m cid = Some c \<Longrightarrow>
   map_find (prereq_loop cid flds m) k =
     (if k = cid then Some (c\<lparr>prereqs := prereqs c @ prereq_ids flds\<rparr>)
      else case map_find m k of
             Some e \<Rightarrow> Some e
           | None \<Rightarrow> if k \<in> set (prereq_ids flds) then Some (placeholder k) else None)"
proof (induction flds arbitrary: m c)
  case Nil
  then show ?case by (simp add: prereq_ids_def split: option.splits)
next
  case (Cons f flds)
  show ?case
  proof (cases "toUpper (trim f) = []")
    case True
    then have "prereq_ids (f # flds) = prereq_ids flds" by (simp add: prereq_ids_def)
    with True Cons show ?thesis by (simp add: add_prereq_skip)
  next
    case False
    define p where "p = toUpper (trim f)"
    have ids: "prereq_ids (f # flds) = p # prereq_ids flds"
      using False by (simp add: prereq_ids_def p_def)
    have step: "\<And>k. map_find (add_prereq cid f m) k =
          (if k = cid then Some (c\<lparr>prereqs := prereqs c @ [p]\<rparr>)
           else case map_find m k of
                  Some e \<Rightarrow> Some e
                | None \<Rightarrow> if k = p then Some (placeholder p) else None)"
      using map_find_add_prereq[OF Cons.prems, of f p] False by (simp add: p_def)
    have cidv: "map_find (add_prereq cid f m) cid = Some (c\<lparr>prereqs := prereqs c @ [p]\<rparr>)"
      by (simp add: step)
    show ?thesis
      unfolding prereq_loop.simps Cons.IH[OF cidv] ids
      by (auto simp: step split: option.splits)
  qed
qed

subsection \<open>One line of the file\<close>

lemma process_fields_short:
  "length flds < 2 \<Longrightarrow>
   process_fields n flds (m, w) =
     (m, w @ [''Line '' @ to_string n @ '' skipped: fewer than 2 fields''])"
  by (simp add: process_fields_def)

lemma process_fields_no_id:
  "2 \<le> length flds \<Longrightarrow> toUpper (trim (flds ! 0)) = [] \<Longrightarrow>
   process_fields n flds (m, w) =
     (m, w @ [''Line '' @ to_string n @ '' skipped: empty course ID''])"
  by (simp add: process_fields_def)

lemma process_fields_warnings:
  "2 \<le> length flds \<Longrightarrow> toUpper (trim (flds ! 0)) = cid \<Longrightarrow> cid \<noteq> [] \<Longrightarrow>
   snd (process_fields n flds (m, w)) =
     (if flds ! 1 = []
      then w @ [''Line '' @ to_string n @ '' has empty title for course '' @ cid]
      else w)"
  by (simp add: process_fields_def Let_def)

lemma process_fields_catalog:
  assumes "2 \<le> length flds" and "toUpper (trim (flds ! 0)) = cid" and "cid \<noteq> []"
  shows "fst (process_fields n flds (m, w)) =
     prereq_loop cid (drop 2 flds)
       (map_insert cid
          ((old_entry m cid)\<lparr>id_c := cid,
             title := (if flds ! 1 \<noteq> [] then flds ! 1 else title (old_entry m cid))\<rparr>)
          (subscript m cid))"
proof -
  let ?o = "old_entry m cid"
  have s: "map_find (subscript m cid) cid = Some ?o"
    by (simp add: map_find_subscript old_entry_def split: option.splits)
  have v1: "via_ref cid (\<lambda>c. c\<lparr>id_c := cid\<rparr>) (subscript m cid) =
            map_insert cid (?o\<lparr>id_c := cid\<rparr>) (subscript m cid)"
    by (simp add: via_ref_def s)
  have s2: "map_find (map_insert cid (?o\<lparr>id_c := cid\<rparr>) (subscript m cid)) cid = Some (?o\<lparr>id_c := cid\<rparr>)"
    by (simp add: map_find_map_insert)
  have ii: "map_insert cid b (map_insert cid a x) = map_insert cid b x" for a b x
    by (induction x) auto
  have v2: "via_ref cid (\<lambda>c. c\<lparr>title := t\<rparr>) (map_insert cid (?o\<lparr>id_c := cid\<rparr>) (subscript m cid)) =
            map_insert cid (?o\<lparr>id_c := cid, title := t\<rparr>) (subscript m cid)" for t
    by (simp add: via_ref_def s2 ii)
  show ?thesis using assms
    by (simp add: process_fields_def Let_def v1 v2)
qed

lemma map_find_process_fields:
  assumes "2 \<le> length flds" and "toUpper (trim (flds ! 0)) = cid" and "cid \<noteq> []"
  shows "map_find (fst (process_fields n flds (m, w))) k =
     (if k = cid then
        Some \<lparr>id_c = cid,
              title = (if flds ! 1 \<noteq> [] then flds ! 1 else title (old_entry m cid)),
              prereqs = prereqs (old_entry m cid) @ prereq_ids (drop 2 flds)\<rparr>
      else case map_find m k of
             Some e \<Rightarrow> Some e
           | None \<Rightarrow> if k \<in> set (prereq_ids (drop 2 flds)) then Some (placeholder k) else None)"
proof -
  let ?o = "old_entry m cid"
  let ?c = "?o\<lparr>id_c := cid, title := (if flds ! 1 \<noteq> [] then flds ! 1 else title ?o)\<rparr>"
  let ?m = "map_insert cid ?c (subscript m cid)"
  have c: "map_find ?m cid = Some ?c" by (simp add: map_find_map_insert)
  have other: "k \<noteq> cid \<Longrightarrow> map_find ?m k = map_find m k"
    by (simp add: map_find_map_insert map_find_subscript split: option.splits)
  show ?thesis
    unfolding process_fields_catalog[OF assms] map_find_prereq_loop[OF c]
    using other by auto
qed

lemma sorted_process_fields:
  "sorted_wrt (<) (map fst m) \<Longrightarrow> sorted_wrt (<) (map fst (fst (process_fields n flds (m, w))))"
  by (simp add: process_fields_def Let_def sorted_prereq_loop sorted_via_ref sorted_subscript)

subsection \<open>The invariant of a load\<close>

lemma keys_distinct: "sorted_wrt (<) (map fst (m::catalog)) \<Longrightarrow> distinct (map fst m)"
  by (simp add: strict_sorted_iff)

lemma catalog_ok_iff:
  "catalog_ok m \<longleftrightarrow>
     sorted_wrt (<) (map fst m) \<and> (\<forall>k c. map_find m k = Some c \<longrightarrow> entry_ok m k c)"
proof (cases "sorted_wrt (<) (map fst m)")
  case True
  then have "distinct (map fst m)" by (rule keys_distinct)
  then have "map_find m k = Some c \<longleftrightarrow> (k, c) \<in> set m" for k c
    by (simp add: map_find_def)
  with True show ?thesis
    by (auto simp: catalog_ok_def list_all_iff)
next
  case False
  then show ?thesis by (simp add: catalog_ok_def)
qed

lemma entry_ok_mono:
  "entry_ok m k c \<Longrightarrow> (\<And>p. map_find m p \<noteq> None \<Longrightarrow> map_find m' p \<noteq> None) \<Longrightarrow> entry_ok m' k c"
  by (auto simp: entry_ok_def list_all_iff)

lemma prereq_ids_upper: "p \<in> set (prereq_ids flds) \<Longrightarrow> p \<noteq> [] \<and> toUpper p = p"
  by (auto simp: prereq_ids_def toUpper_idem)

lemma catalog_ok_Nil: "catalog_ok []"
  by (simp add: catalog_ok_def)

lemma catalog_ok_process_fields:
  assumes "catalog_ok m"
  shows "catalog_ok (fst (process_fields n flds (m, w)))"
proof -
  from assms have srt: "sorted_wrt (<) (map fst m)"
    and ok: "\<And>k c. map_find m k = Some c \<Longrightarrow> entry_ok m k c"
    by (auto simp: catalog_ok_iff)
  show ?thesis
  proof (cases "2 \<le> length flds \<and> toUpper (trim (flds ! 0)) \<noteq> []")
    case False
    then show ?thesis
      using assms by (cases "length flds < 2") (simp_all add: process_fields_short process_fields_no_id)
  next
    case True
    define cid where "cid = toUpper (trim (flds ! 0))"
    define m' where "m' = fst (process_fields n flds (m, w))"
    define P where "P = prereq_ids (drop 2 flds)"
    define ttl where "ttl = (if flds ! 1 \<noteq> [] then flds ! 1 else title (old_entry m cid))"
    from True have len: "2 \<le> length flds" and cid: "cid \<noteq> []" by (auto simp: cid_def)
    have upper: "toUpper cid = cid" by (simp add: cid_def toUpper_idem)
    have find: "map_find m' k =
       (if k = cid then Some \<lparr>id_c = cid, title = ttl, prereqs = prereqs (old_entry m cid) @ P\<rparr>
        else case map_find m k of
               Some e \<Rightarrow> Some e
             | None \<Rightarrow> if k \<in> set P then Some (placeholder k) else None)" for k
      unfolding m'_def P_def ttl_def
      by (rule map_find_process_fields[OF len cid_def[symmetric] cid])
    have grow: "map_find m p \<noteq> None \<Longrightarrow> map_find m' p \<noteq> None" for p
      by (auto simp: find)
    have newP: "p \<in> set P \<Longrightarrow> map_find m' p \<noteq> None" for p
      by (auto simp: find split: option.splits)
    have old: "[] \<notin> set (prereqs (old_entry m cid)) \<and>
               (\<forall>p\<in>set (prereqs (old_entry m cid)). map_find m p \<noteq> None)"
    proof (cases "map_find m cid")
      case None
      then show ?thesis by (simp add: old_entry_def default_Course_def)
    next
      case (Some c)
      with ok[OF Some] show ?thesis by (auto simp: old_entry_def entry_ok_def list_all_iff)
    qed
    have "entry_ok m' k c" if kc: "map_find m' k = Some c" for k c
    proof (cases "k = cid")
      case True
      with kc have c: "c = \<lparr>id_c = cid, title = ttl, prereqs = prereqs (old_entry m cid) @ P\<rparr>"
        by (simp add: find)
      show ?thesis
        unfolding entry_ok_def c True using cid upper old grow newP
        by (auto simp: list_all_iff P_def dest: prereq_ids_upper)
    next
      case False
      show ?thesis
      proof (cases "map_find m k")
        case (Some e)
        with kc False have "c = e" by (simp add: find)
        with ok[OF Some] grow show ?thesis by (auto intro: entry_ok_mono)
      next
        case None
        with kc False have kP: "k \<in> set P" and c: "c = placeholder k"
          by (auto simp: find split: if_splits)
        from kP have "k \<noteq> [] \<and> toUpper k = k" unfolding P_def by (rule prereq_ids_upper)
        then show ?thesis by (simp add: entry_ok_def c placeholder_def)
      qed
    qed
    moreover have "sorted_wrt (<) (map fst m')"
      unfolding m'_def using srt by (rule sorted_process_fields)
    ultimately show ?thesis unfolding m'_def[symmetric] by (simp add: catalog_ok_iff)
  qed
qed

lemma catalog_ok_process_line:
  "catalog_ok (fst st) \<Longrightarrow> catalog_ok (fst (process_line n line st))"
  by (cases st) (simp add: process_line_def catalog_ok_process_fields)

lemma catalog_ok_load_loop:
  "catalog_ok (fst st) \<Longrightarrow> catalog_ok (fst (load_loop n lines st))"
  by (induction lines arbitrary: n st) (simp_all add: catalog_ok_process_line)

lemma load_loop_append:
  "load_loop n (xs @ ys) st = load_loop (n + length xs) ys (load_loop n xs st)"
  by (induction xs arbitrary: n st) simp_all

lemma load_fails:
  "fs filename = None \<Longrightarrow> loadCoursesFromFile fs filename c w = (False, c, w)"
  by (simp add: loadCoursesFromFile_def)

lemma load_succeeds:
  "fs filename = Some content \<Longrightarrow>
   loadCoursesFromFile fs filename c w =
     (True, fst (load_loop 0 (getlines [] content) ([], [])),
            snd (load_loop 0 (getlines [] content) ([], [])))"
  by (simp add: loadCoursesFromFile_def split: prod.splits)

lemma load_True_iff:
  "fst (loadCoursesFromFile fs filename c w) \<longleftrightarrow> fs filename \<noteq> None"
  by (auto simp: loadCoursesFromFile_def split: option.splits prod.splits)

lemma loaded_catalog_ok:
  assumes "loadCoursesFromFile fs filename c w = (True, c', w')"
  shows "catalog_ok c'"
proof -
  from assms obtain content where f: "fs filename = Some content"
    by (cases "fs filename") (auto simp: load_fails)
  from assms have "c' = fst (load_loop 0 (getlines [] content) ([], []))"
    using load_succeeds[of fs filename content c w] f by simp
  then show ?thesis by (simp add: catalog_ok_load_loop catalog_ok_Nil)
qed

subsection \<open>Consequences of the invariant\<close>

lemma catalog_ok_entry:
  "catalog_ok m \<Longrightarrow> (k, c) \<in> set m \<Longrightarrow> entry_ok m k c"
  by (auto simp: catalog_ok_def list_all_iff)

lemma catalog_ok_find:
  "catalog_ok m \<Longrightarrow> map_find m k = Some c \<Longrightarrow> entry_ok m k c"
  by (simp add: catalog_ok_iff)

lemma catalog_ok_prereq_resolves:
  assumes "catalog_ok m" and "(k, c) \<in> set m" and "p \<in> set (prereqs c)"
  shows "\<exists>e. map_find m p = Some e \<and> id_c e = p"
proof -
  from assms have "map_find m p \<noteq> None"
    by (auto dest!: catalog_ok_entry simp: entry_ok_def list_all_iff)
  then obtain e where e: "map_find m p = Some e" by auto
  with assms(1) have "entry_ok m p e" by (rule catalog_ok_find)
  with e show ?thesis by (auto simp: entry_ok_def)
qed

lemma toupper_fixed: "toupper ch = ch \<Longrightarrow> \<not> (CHR 0x61 \<le> ch \<and> ch \<le> CHR 0x7A)"
proof
  assume f: "toupper ch = ch" and r: "CHR 0x61 \<le> ch \<and> ch \<le> CHR 0x7A"
  from r have "97 \<le> (of_char ch :: nat)" "(of_char ch :: nat) \<le> 122"
    by (simp_all add: less_eq_char_def)
  then have "(of_char (toupper ch) :: nat) \<noteq> of_char ch"
    by (simp add: of_char_toupper)
  with f show False by simp
qed

lemma toUpper_fixed:
  "toUpper s = s \<Longrightarrow> ch \<in> set s \<Longrightarrow> \<not> (CHR 0x61 \<le> ch \<and> ch \<le> CHR 0x7A)"
proof -
  assume "toUpper s = s" and c: "ch \<in> set s"
  then have "map toupper s = map (\<lambda>x. x) s" by (simp add: toUpper_def)
  then have "toupper ch = ch" using c by (simp only: map_eq_conv)
  then show ?thesis by (rule toupper_fixed)
qed

subsection \<open>Empty prerequisite fields\<close>

lemma prereq_loop_append:
  "prereq_loop cid (xs @ ys) m = prereq_loop cid ys (prereq_loop cid xs m)"
  by (induction xs arbitrary: m) simp_all

lemma toUpper_Nil_iff: "toUpper s = [] \<longleftrightarrow> s = []"
  by (simp add: toUpper_def)

lemma prereq_loop_drop_empty:
  "trim f = [] \<Longrightarrow> prereq_loop cid (pre @ f # post) m = prereq_loop cid (pre @ post) m"
  by (simp add: prereq_loop_append add_prereq_skip toUpper_def)

lemma process_fields_drop_empty:
  assumes "trim f = []"
  shows "process_fields n (f0 # f1 # pre @ f # post) st = process_fields n (f0 # f1 # pre @ post) st"
  by (cases st) (simp add: process_fields_def Let_def prereq_loop_drop_empty[OF assms])

lemma catalog_ok_no_empty_key: "catalog_ok m \<Longrightarrow> map_find m [] = None"
proof (rule ccontr)
  assume ok: "catalog_ok m" and "map_find m [] \<noteq> None"
  then obtain c where "map_find m [] = Some c" by auto
  with ok have "entry_ok m [] c" by (rule catalog_ok_find)
  then show False by (simp add: entry_ok_def)
qed

subsection \<open>Skipped lines and line numbers\<close>

lemma digits_value_snoc:
  "digits_value (s @ [ch]) = 10 * digits_value s + (of_char ch - 48)"
  by (simp add: digits_value_def)

lemma of_char_digit_char: "d < 10 \<Longrightarrow> of_char (digit_char d) = 48 + d"
  by (simp add: digit_char_def)

lemma digits_value_to_string: "digits_value (to_string n) = n"
proof (induction n rule: to_string.induct)
  case (1 n)
  show ?case
  proof (cases "n < 10")
    case True
    then show ?thesis
      by (subst to_string.simps) (simp add: digits_value_def of_char_digit_char)
  next
    case False
    have "n mod 10 < 10" by simp
    then have d: "(of_char (digit_char (n mod 10)) :: nat) = 48 + n mod 10"
      by (rule of_char_digit_char)
    from False 1 have "digits_value (to_string (n div 10)) = n div 10" by simp
    with False d show ?thesis
      by (subst to_string.simps) (simp add: digits_value_snoc)
  qed
qed

lemma process_line_blank: "trim line = [] \<Longrightarrow> process_line n line st = st"
  by (simp add: process_line_def)

lemma process_line_short:
  "trim line \<noteq> [] \<Longrightarrow> length (parseCSVLine line) < 2 \<Longrightarrow>
   process_line n line st =
     (fst st, snd st @ [''Line '' @ to_string n @ '' skipped: fewer than 2 fields''])"
  by (cases st) (simp add: process_line_def process_fields_short)

lemma process_line_no_id:
  "trim line \<noteq> [] \<Longrightarrow> 2 \<le> length (parseCSVLine line) \<Longrightarrow> trim (parseCSVLine line ! 0) = [] \<Longrightarrow>
   process_line n line st =
     (fst st, snd st @ [''Line '' @ to_string n @ '' skipped: empty course ID''])"
  by (cases st) (simp add: process_line_def process_fields_no_id toUpper_def)

lemma load_loop_split:
  "load_loop 0 (pre @ line # post) st =
   load_loop (Suc (length pre)) post (process_line (Suc (length pre)) line (load_loop 0 pre st))"
  by (simp add: load_loop_append)

subsection \<open>printCourseInfo\<close>

lemma print_prereqs_eq:
  "print_prereqs cat pids out = out @ map (prereq_line cat) pids"
  by (induction pids arbitrary: out) (simp_all add: prereq_line_def)

lemma printCourseInfo_normalizes:
  "printCourseInfo cat q = printCourseInfo cat (toUpper (trim q))"
  by (simp add: printCourseInfo_def trim_toUpper trim_idem toUpper_idem)

lemma printCourseInfo_empty:
  "trim q = [] \<Longrightarrow> printCourseInfo cat q = [''Error: empty course ID.'']"
  by (simp add: printCourseInfo_def toUpper_def)

lemma printCourseInfo_missing:
  "trim q \<noteq> [] \<Longrightarrow> map_find cat (toUpper (trim q)) = None \<Longrightarrow>
   printCourseInfo cat q = [''Course not found: '' @ toUpper (trim q)]"
  by (simp add: printCourseInfo_def toUpper_def)

lemma printCourseInfo_placeholder:
  "trim q \<noteq> [] \<Longrightarrow> map_find cat (toUpper (trim q)) = Some c \<Longrightarrow> title c = [] \<Longrightarrow>
   printCourseInfo cat q = [''Course not found: '' @ toUpper (trim q)]"
  by (simp add: printCourseInfo_def toUpper_def)

lemma printCourseInfo_found:
  "trim q \<noteq> [] \<Longrightarrow> map_find cat (toUpper (trim q)) = Some c \<Longrightarrow> title c \<noteq> [] \<Longrightarrow>
   printCourseInfo cat q =
     ['''', id_c c @ '': '' @ title c] @
     (if prereqs c = [] then [''Prerequisites: None'']
      else ''Prerequisites:'' # map (prereq_line cat) (prereqs c)) @
     ['''']"
  by (simp add: printCourseInfo_def toUpper_def Let_def print_prereqs_eq)

subsection \<open>printSortedCourseList\<close>

lemma collect_ids_eq:
  "collect_ids cat ids = ids @ map (\<lambda>(k, c). id_c c) (filter (\<lambda>(k, c). title c \<noteq> []) cat)"
  by (induction cat arbitrary: ids) auto

lemma catalog_ok_find_entry:
  assumes "catalog_ok m" and "(k, c) \<in> set m"
  shows "map_find m k = Some c"
proof -
  from assms(1) have "distinct (map fst m)"
    by (simp add: catalog_ok_def keys_distinct)
  with assms(2) show ?thesis by (simp add: map_find_def)
qed

lemma titled_keys_sorted:
  assumes "catalog_ok m"
  shows "sorted_wrt (<) (map fst (filter (\<lambda>(k, c). title c \<noteq> []) m))"
proof -
  from assms have "sorted_wrt (\<lambda>x y. fst x < fst y) m"
    by (simp add: catalog_ok_def sorted_wrt_map)
  then have "sorted_wrt (\<lambda>x y. fst x < fst y) (filter (\<lambda>(k, c). title c \<noteq> []) m)"
    by (rule sorted_wrt_filter)
  then show ?thesis by (simp add: sorted_wrt_map)
qed

lemma collect_ids_keys:
  assumes "catalog_ok m"
  shows "collect_ids m [] = map fst (filter (\<lambda>(k, c). title c \<noteq> []) m)"
proof -
  have "id_c c = k" if "(k, c) \<in> set m" for k c
    using catalog_ok_entry[OF assms that] by (simp add: entry_ok_def)
  then show ?thesis
    by (auto simp: collect_ids_eq)
qed

lemma print_ids_eq:
  "\<forall>i \<in> set ids. map_find cat i \<noteq> None \<Longrightarrow>
   print_ids cat ids out = Inr (out @ map (\<lambda>i. i @ '', '' @ title (old_entry cat i)) ids)"
  by (induction ids arbitrary: out) (auto simp: old_entry_def)

lemma listSorted_eq:
  assumes "catalog_ok m"
  shows "listSorted m = map (\<lambda>(k, c). (k, title c)) (filter (\<lambda>(k, c). title c \<noteq> []) m)"
proof -
  have "sorted (map fst (filter (\<lambda>(k, c). title c \<noteq> []) m))"
    using titled_keys_sorted[OF assms] by (simp add: strict_sorted_iff)
  then have "sort_key fst (filter (\<lambda>(k, c). title c \<noteq> []) m) = filter (\<lambda>(k, c). title c \<noteq> []) m"
    by (rule sort_key_id_if_sorted)
  then show ?thesis by (simp add: listSorted_def)
qed

lemma printSortedCourseList_eq:
  assumes "catalog_ok m"
  shows "printSortedCourseList m =
    Inr (['''', ''Computer Science Course List'', ''----------------------------''] @
         map (\<lambda>(i, t). i @ '', '' @ t) (listSorted m) @ [''''])"
proof -
  let ?f = "filter (\<lambda>(k, c). title c \<noteq> []) m"
  let ?ids = "map fst ?f"
  have srt: "sorted ?ids"
    using titled_keys_sorted[OF assms] by (simp add: strict_sorted_iff)
  then have "sorted (map (\<lambda>x. x) ?ids)" by simp
  then have s: "sort ?ids = ?ids" by (rule sort_key_id_if_sorted)
  have keys: "\<forall>i \<in> set ?ids. map_find m i \<noteq> None"
    using catalog_ok_find_entry[OF assms] by auto
  have e: "old_entry m k = c" if "(k, c) \<in> set m" for k c
    using catalog_ok_find_entry[OF assms that] by (simp add: old_entry_def)
  have lines: "map (\<lambda>i. i @ '', '' @ title (old_entry m i)) ?ids =
               map (\<lambda>(i, t). i @ '', '' @ t) (listSorted m)"
    unfolding listSorted_eq[OF assms] using e by auto
  show ?thesis
    unfolding printSortedCourseList_def collect_ids_keys[OF assms] s Let_def
      print_ids_eq[OF keys] lines
    by simp
qed

lemma listSorted_keys:
  assumes "catalog_ok m"
  shows "sorted (map fst (listSorted m))" and "distinct (map fst (listSorted m))"
proof -
  have "map fst (listSorted m) = map fst (filter (\<lambda>(k, c). title c \<noteq> []) m)"
    unfolding listSorted_eq[OF assms] by (simp add: case_prod_beta comp_def)
  with titled_keys_sorted[OF assms]
  show "sorted (map fst (listSorted m))" and "distinct (map fst (listSorted m))"
    by (simp_all add: strict_sorted_iff)
qed

lemma listSorted_set:
  assumes "catalog_ok m"
  shows "(k, t) \<in> set (listSorted m) \<longleftrightarrow> (\<exists>c. map_find m k = Some c \<and> title c = t \<and> t \<noteq> [])"
proof -
  from assms have "distinct (map fst m)"
    by (simp add: catalog_ok_def keys_distinct)
  then have "map_find m k = Some c \<longleftrightarrow> (k, c) \<in> set m" for c
    by (simp add: map_find_def)
  then show ?thesis
    unfolding listSorted_eq[OF assms] by auto
qed

subsection \<open>The example file\<close>

lemma sample_load:
  "loadCoursesFromFile sample_fs ''courses.csv'' [] [] = (True, sample_catalog, sample_warnings)"
  by code_simp

lemma sample_missing: "sample_fs ''nothing.csv'' = None"
  by (simp add: sample_fs_def)

section \<open>The claims\<close>



text \<open>
  C2. After a load that returns success, every identifier in the prerequisite list of any
  course of the catalog is a key of the catalog, and the record found there carries that
  identifier. The same holds after any number of lines of the file, since a missing
  prerequisite gets its placeholder in the round that appends it.
\<close>

theorem prereqs_have_entries:
  assumes "fs filename = Some content"
    and "loadCoursesFromFile fs filename c0 w0 = (True, cat, w)"
  shows "(\<forall>(k, c) \<in> set cat. \<forall>p \<in> set (prereqs c). \<exists>e. map_find cat p = Some e \<and> id_c e = p) \<and>
    (\<forall>(k, c) \<in> set (fst (load_loop 0 (take j (getlines [] content)) ([], []))).
       \<forall>p \<in> set (prereqs c).
         \<exists>e. map_find (fst (load_loop 0 (take j (getlines [] content)) ([], []))) p = Some e \<and>
             id_c e = p)"
proof -
  have "catalog_ok cat" using assms(2) by (rule loaded_catalog_ok)
  moreover have "catalog_ok (fst (load_loop 0 (take j (getlines [] content)) ([], [])))"
    by (simp add: catalog_ok_load_loop catalog_ok_Nil)
  ultimately show ?thesis
    by (auto dest: catalog_ok_prereq_resolves)
qed

theorem prereqs_have_entries_witness:
  "sample_fs ''courses.csv'' \<noteq> None \<and>
   loadCoursesFromFile sample_fs ''courses.csv'' [] [] = (True, sample_catalog, sample_warnings) \<and>
   list_all (\<lambda>(k, c). list_all (\<lambda>p. \<exists>e. map_find sample_catalog p = Some e \<and> id_c e = p) (prereqs c))
     sample_catalog \<and>
   (\<exists>e. map_find sample_catalog ''MATH201'' = Some e \<and> id_c e = ''MATH201'' \<and> title e = [])"
proof -
  obtain content where c: "sample_fs ''courses.csv'' = Some content"
    by (simp add: sample_fs_def)
  have m: "map_find sample_catalog ''MATH201'' = Some \<lparr>id_c = ''MATH201'', title = [], prereqs = []\<rparr>"
    by code_simp
  from prereqs_have_entries[OF c sample_load, of 0] c sample_load m
  show ?thesis
    by (simp add: list_all_iff case_prod_beta)
qed

text \<open>
  C3. When the path cannot be opened, loadCoursesFromFile returns false and leaves the catalog
  and the warning list exactly as they were, and the menu's load handler then clears the
  dataLoaded flag while keeping the catalog. When the file can be opened the call returns
  true, and the catalog and warnings it leaves do not depend on what was there before.
\<close>

theorem failed_load_keeps_catalog:
  "(fs filename = None \<longrightarrow>
      loadCoursesFromFile fs filename c w = (False, c, w) \<and>
      (trim raw = filename \<and> filename \<noteq> [] \<longrightarrow>
         menu_load fs raw st = (st\<lparr>dataLoaded := False\<rparr>, []))) \<and>
   (fs filename \<noteq> None \<longrightarrow>
      fst (loadCoursesFromFile fs filename c w) = True \<and>
      loadCoursesFromFile fs filename c w = loadCoursesFromFile fs filename c' w' \<and>
      (trim raw = filename \<and> filename \<noteq> [] \<longrightarrow>
         fst (menu_load fs raw st) =
           \<lparr>courses = fst (snd (loadCoursesFromFile fs filename [] [])), dataLoaded = True\<rparr>))"
proof (intro conjI impI)
  assume n: "fs filename = None"
  then show "loadCoursesFromFile fs filename c w = (False, c, w)" by (rule load_fails)
  assume "trim raw = filename \<and> filename \<noteq> []"
  then show "menu_load fs raw st = (st\<lparr>dataLoaded := False\<rparr>, [])"
    using n by (simp add: menu_load_def load_fails)
next
  assume s: "fs filename \<noteq> None"
  then obtain content where c: "fs filename = Some content" by auto
  show "fst (loadCoursesFromFile fs filename c w) = True"
    using s by (simp add: load_True_iff)
  show "loadCoursesFromFile fs filename c w = loadCoursesFromFile fs filename c' w'"
    using c by (simp add: loadCoursesFromFile_def)
  assume "trim raw = filename \<and> filename \<noteq> []"
  then show "fst (menu_load fs raw st) =
           \<lparr>courses = fst (snd (loadCoursesFromFile fs filename [] [])), dataLoaded = True\<rparr>"
    using c by (simp add: menu_load_def loadCoursesFromFile_def split: prod.splits)
qed

theorem failed_load_keeps_catalog_witness:
  "sample_fs ''nothing.csv'' = None \<and>
   loadCoursesFromFile sample_fs ''nothing.csv'' sample_catalog sample_warnings =
     (False, sample_catalog, sample_warnings) \<and>
   menu_load sample_fs '' nothing.csv '' \<lparr>courses = sample_catalog, dataLoaded = True\<rparr> =
     (\<lparr>courses = sample_catalog, dataLoaded = False\<rparr>, []) \<and>
   sample_fs ''courses.csv'' \<noteq> None \<and>
   loadCoursesFromFile sample_fs ''courses.csv'' [(''X'', default_Course)] [''old''] =
     loadCoursesFromFile sample_fs ''courses.csv'' [] [] \<and>
   fst (menu_load sample_fs ''courses.csv'' \<lparr>courses = [(''X'', default_Course)], dataLoaded = False\<rparr>) =
     \<lparr>courses = sample_catalog, dataLoaded = True\<rparr>"
proof -
  have t1: "trim '' nothing.csv '' = ''nothing.csv'' \<and> ''nothing.csv'' \<noteq> []" by code_simp
  have t2: "trim ''courses.csv'' = ''courses.csv'' \<and> ''courses.csv'' \<noteq> []" by code_simp
  have e: "sample_fs ''courses.csv'' \<noteq> None" by (simp add: sample_fs_def)
  from failed_load_keeps_catalog[of sample_fs "''nothing.csv''" sample_catalog sample_warnings
      "'' nothing.csv ''" "\<lparr>courses = sample_catalog, dataLoaded = True\<rparr>"]
    failed_load_keeps_catalog[of sample_fs "''courses.csv''" "[(''X'', default_Course)]" "[''old'']"
      "''courses.csv''" "\<lparr>courses = [(''X'', default_Course)], dataLoaded = False\<rparr>" "[]" "[]"]
    sample_missing t1 t2 e
  show ?thesis
    by (simp add: sample_load)
qed

text \<open>
  C9. Loading the same file again gives the same catalog: when a load has returned success
  and left a catalog and warnings, a second load of the same path, started from that
  catalog and any warning list, returns success with exactly that catalog and those
  warnings again.
\<close>

theorem load_idempotent:
  assumes "loadCoursesFromFile fs filename c0 w0 = (True, c1, w1)"
  shows "loadCoursesFromFile fs filename c1 w = (True, c1, w1)"
proof -
  from assms obtain content where f: "fs filename = Some content"
    by (cases "fs filename") (auto simp: load_fails)
  then have "loadCoursesFromFile fs filename c1 w = loadCoursesFromFile fs filename c0 w0"
    by (simp add: loadCoursesFromFile_def)
  with assms show ?thesis by simp
qed

theorem load_idempotent_witness:
  "loadCoursesFromFile sample_fs ''courses.csv'' [] [] = (True, sample_catalog, sample_warnings) \<and>
   loadCoursesFromFile sample_fs ''courses.csv'' sample_catalog [] =
     (True, sample_catalog, sample_warnings)"
  using load_idempotent[OF sample_load, of "[]"] sample_load
  by simp

text \<open>
  C10. After a load that returns success, every record of the catalog, defined or
  placeholder, stores the key it is filed under as its identifier, and that identifier is
  uppercase-normalized: toUpper leaves it unchanged and it has no letter a..z. A
  prerequisite field that trims to empty is dropped silently: the round of the loop for it
  changes nothing, the line gives the same catalog and the same warnings as the line
  without that field, no loaded record lists an empty prerequisite, and the catalog has no
  entry under the empty identifier.
\<close>

theorem ids_normalized_empty_prereqs_dropped:
  assumes "loadCoursesFromFile fs filename c0 w0 = (True, cat, w)"
    and "trim f = []"
  shows "(\<forall>(k, c) \<in> set cat.
            id_c c = k \<and> toUpper (id_c c) = id_c c \<and>
            (\<forall>ch \<in> set (id_c c). \<not> (CHR 0x61 \<le> ch \<and> ch \<le> CHR 0x7A)) \<and>
            [] \<notin> set (prereqs c)) \<and>
         map_find cat [] = None \<and>
         add_prereq cid f m = m \<and>
         process_fields n (f0 # f1 # pre @ f # post) st = process_fields n (f0 # f1 # pre @ post) st"
proof -
  have ok: "catalog_ok cat" using assms(1) by (rule loaded_catalog_ok)
  have "id_c c = k \<and> toUpper (id_c c) = id_c c \<and>
        (\<forall>ch \<in> set (id_c c). \<not> (CHR 0x61 \<le> ch \<and> ch \<le> CHR 0x7A)) \<and> [] \<notin> set (prereqs c)"
    if "(k, c) \<in> set cat" for k c
  proof -
    from ok that have e: "entry_ok cat k c" by (rule catalog_ok_entry)
    then have u: "toUpper (id_c c) = id_c c" by (simp add: entry_ok_def)
    from e u show ?thesis by (auto simp: entry_ok_def dest: toUpper_fixed)
  qed
  moreover have "map_find cat [] = None" using ok by (rule catalog_ok_no_empty_key)
  moreover have "add_prereq cid f m = m" using assms(2) by (simp add: add_prereq_skip toUpper_def)
  moreover note process_fields_drop_empty[OF assms(2)]
  ultimately show ?thesis by blast
qed

theorem ids_normalized_empty_prereqs_dropped_witness:
  "loadCoursesFromFile sample_fs ''courses.csv'' [] [] = (True, sample_catalog, sample_warnings) \<and>
   trim ''  '' = [] \<and>
   list_all (\<lambda>(k, c). id_c c = k \<and> toUpper (id_c c) = id_c c \<and> [] \<notin> set (prereqs c)) sample_catalog \<and>
   map_find sample_catalog [] = None \<and>
   add_prereq ''CSCI300'' ''  '' sample_catalog = sample_catalog \<and>
   process_fields 7 [''csci300'', ''Foo'', ''csci200'', ''  '', ''csci101''] (sample_catalog, []) =
   process_fields 7 [''csci300'', ''Foo'', ''csci200'', ''csci101''] (sample_catalog, [])"
proof -
  have t: "trim ''  '' = []" by code_simp
  from ids_normalized_empty_prereqs_dropped[OF sample_load t, of "''CSCI300''" sample_catalog 7
      "''csci300''" "''Foo''" "[''csci200'']" "[''csci101'']" "(sample_catalog, [])"] sample_load t
  show ?thesis
    unfolding list_all_iff by fastforce
qed

text \<open>
  C8. A line that is not blank, has at least two fields and a non-empty identifier leaves
  under that identifier the record that was there before, or a new one when there was none,
  changed as follows: its title becomes the line's trimmed title when that is not empty and
  is kept otherwise, and the line's non-empty prerequisite fields are appended to its
  prerequisites. An empty title adds the warning and nothing else; every other record that
  was in the catalog is left as it was.
\<close>

theorem existing_entry_reused:
  assumes "trim line \<noteq> []" and "2 \<le> length (parseCSVLine line)"
    and "toUpper (trim (parseCSVLine line ! 0)) = cid" and "cid \<noteq> []"
  shows "map_find (fst (process_line n line (m, w))) cid =
           Some \<lparr>id_c = cid,
                 title = (if parseCSVLine line ! 1 \<noteq> [] then parseCSVLine line ! 1
                          else title (old_entry m cid)),
                 prereqs = prereqs (old_entry m cid) @ prereq_ids (drop 2 (parseCSVLine line))\<rparr> \<and>
         snd (process_line n line (m, w)) =
           (if parseCSVLine line ! 1 = []
            then w @ [''Line '' @ to_string n @ '' has empty title for course '' @ cid]
            else w) \<and>
         (\<forall>old. map_find m cid = Some old \<longrightarrow> old_entry m cid = old) \<and>
         (map_find m cid = None \<longrightarrow> old_entry m cid = default_Course) \<and>
         (\<forall>k e. k \<noteq> cid \<and> map_find m k = Some e \<longrightarrow>
                 map_find (fst (process_line n line (m, w))) k = Some e) \<and>
         trim (parseCSVLine line ! 1) = parseCSVLine line ! 1"
proof -
  have pl: "process_line n line (m, w) = process_fields n (parseCSVLine line) (m, w)"
    using assms(1) by (simp add: process_line_def)
  have "parseCSVLine line ! 1 \<in> set (parseCSVLine line)"
    using assms(2) by simp
  then have "trim (parseCSVLine line ! 1) = parseCSVLine line ! 1"
    by (rule parseCSVLine_trimmed)
  moreover have "\<forall>k e. k \<noteq> cid \<and> map_find m k = Some e \<longrightarrow>
                 map_find (fst (process_line n line (m, w))) k = Some e"
    unfolding pl by (simp add: map_find_process_fields[OF assms(2,3,4)])
  moreover have "map_find (fst (process_line n line (m, w))) cid =
           Some \<lparr>id_c = cid,
                 title = (if parseCSVLine line ! 1 \<noteq> [] then parseCSVLine line ! 1
                          else title (old_entry m cid)),
                 prereqs = prereqs (old_entry m cid) @ prereq_ids (drop 2 (parseCSVLine line))\<rparr>"
    unfolding pl by (simp add: map_find_process_fields[OF assms(2,3,4)])
  moreover have "snd (process_line n line (m, w)) =
           (if parseCSVLine line ! 1 = []
            then w @ [''Line '' @ to_string n @ '' has empty title for course '' @ cid]
            else w)"
    unfolding pl by (rule process_fields_warnings[OF assms(2,3,4)])
  ultimately show ?thesis by (simp add: old_entry_def)
qed

theorem existing_entry_reused_witness:
  "trim ''csci101,,csci200'' \<noteq> [] \<and> parseCSVLine ''csci101,,csci200'' = [''csci101'', '''', ''csci200''] \<and>
   map_find sample_catalog ''CSCI101'' = Some \<lparr>id_c = ''CSCI101'', title = ''Bar'', prereqs = []\<rparr> \<and>
   map_find (fst (process_line 7 ''csci101,,csci200'' (sample_catalog, []))) ''CSCI101'' =
     Some \<lparr>id_c = ''CSCI101'', title = ''Bar'', prereqs = [''CSCI200'']\<rparr> \<and>
   snd (process_line 7 ''csci101,,csci200'' (sample_catalog, [])) =
     [''Line 7 has empty title for course CSCI101''] \<and>
   map_find sample_catalog ''MATH201'' = Some \<lparr>id_c = ''MATH201'', title = [], prereqs = []\<rparr> \<and>
   map_find (fst (process_line 7 ''math201, Calculus ,math101'' (sample_catalog, []))) ''MATH201'' =
     Some \<lparr>id_c = ''MATH201'', title = ''Calculus'', prereqs = [''MATH101'']\<rparr> \<and>
   snd (process_line 7 ''math201, Calculus ,math101'' (sample_catalog, [])) = []"
proof -
  have a1: "trim ''csci101,,csci200'' \<noteq> []" by code_simp
  have p1: "parseCSVLine ''csci101,,csci200'' = [''csci101'', '''', ''csci200'']" by code_simp
  have l1: "2 \<le> length (parseCSVLine ''csci101,,csci200'')" by (simp add: p1)
  have i1: "toUpper (trim (parseCSVLine ''csci101,,csci200'' ! 0)) = ''CSCI101''" by code_simp
  have o1: "map_find sample_catalog ''CSCI101'' = Some \<lparr>id_c = ''CSCI101'', title = ''Bar'', prereqs = []\<rparr>"
    by code_simp
  have q1: "prereq_ids (drop 2 (parseCSVLine ''csci101,,csci200'')) = [''CSCI200'']" by code_simp
  have s1: "to_string 7 = ''7''" by code_simp
  have a2: "trim ''math201, Calculus ,math101'' \<noteq> []" by code_simp
  have p2: "parseCSVLine ''math201, Calculus ,math101'' = [''math201'', ''Calculus'', ''math101'']"
    by code_simp
  have l2: "2 \<le> length (parseCSVLine ''math201, Calculus ,math101'')" by (simp add: p2)
  have i2: "toUpper (trim (parseCSVLine ''math201, Calculus ,math101'' ! 0)) = ''MATH201''" by code_simp
  have o2: "map_find sample_catalog ''MATH201'' = Some \<lparr>id_c = ''MATH201'', title = [], prereqs = []\<rparr>"
    by code_simp
  have q2: "prereq_ids (drop 2 (parseCSVLine ''math201, Calculus ,math101'')) = [''MATH101'']" by code_simp
  have n: "''CSCI101'' \<noteq> []" "''MATH201'' \<noteq> []" by simp_all
  note w1 = existing_entry_reused[OF a1 l1 i1 n(1), of 7 sample_catalog "[]"]
  note w2 = existing_entry_reused[OF a2 l2 i2 n(2), of 7 sample_catalog "[]"]
  have oe1: "old_entry sample_catalog ''CSCI101'' = \<lparr>id_c = ''CSCI101'', title = ''Bar'', prereqs = []\<rparr>"
    using w1 o1 by blast
  have oe2: "old_entry sample_catalog ''MATH201'' = \<lparr>id_c = ''MATH201'', title = [], prereqs = []\<rparr>"
    using w2 o2 by blast
  from w1 have r1: "map_find (fst (process_line 7 ''csci101,,csci200'' (sample_catalog, []))) ''CSCI101'' =
     Some \<lparr>id_c = ''CSCI101'', title = ''Bar'', prereqs = [''CSCI200'']\<rparr>"
    and v1: "snd (process_line 7 ''csci101,,csci200'' (sample_catalog, [])) =
     [''Line 7 has empty title for course CSCI101'']"
    unfolding oe1 q1 s1 by (simp_all add: p1)
  from w2 have r2: "map_find (fst (process_line 7 ''math201, Calculus ,math101'' (sample_catalog, []))) ''MATH201'' =
     Some \<lparr>id_c = ''MATH201'', title = ''Calculus'', prereqs = [''MATH101'']\<rparr>"
    and v2: "snd (process_line 7 ''math201, Calculus ,math101'' (sample_catalog, [])) = []"
    unfolding oe2 q2 by (simp_all add: p2)
  from a1 p1 o1 r1 v1 o2 r2 v2 show ?thesis by blast
qed

text \<open>
  C4. When the file opens, the load returns success and every line is processed in turn,
  whatever the lines before it did: the result is that of the lines after a line, run on
  what the line makes of the result of the lines before it. For the line at 1-indexed
  position n: if it is blank after trimming it changes neither catalog nor warnings; if it
  is not blank and parses to fewer than two fields it only adds the warning
  "Line n skipped: fewer than 2 fields"; if it has two fields or more and the first is
  empty after trimming it only adds "Line n skipped: empty course ID". The number in the
  warning is n in decimal.
\<close>

theorem skipped_lines_never_abort:
  assumes "fs filename = Some content" and "getlines [] content = pre @ line # post"
    and "n = Suc (length pre)" and "before = load_loop 0 pre ([], [])"
  shows "loadCoursesFromFile fs filename c0 w0 =
           (True, load_loop n post (process_line n line before)) \<and>
         (trim line = [] \<longrightarrow> process_line n line before = before) \<and>
         (trim line \<noteq> [] \<and> length (parseCSVLine line) < 2 \<longrightarrow>
            process_line n line before =
              (fst before, snd before @ [''Line '' @ to_string n @ '' skipped: fewer than 2 fields''])) \<and>
         (trim line \<noteq> [] \<and> 2 \<le> length (parseCSVLine line) \<and> trim (parseCSVLine line ! 0) = [] \<longrightarrow>
            process_line n line before =
              (fst before, snd before @ [''Line '' @ to_string n @ '' skipped: empty course ID''])) \<and>
         digits_value (to_string n) = n"
proof -
  have "loadCoursesFromFile fs filename c0 w0 =
           (True, load_loop n post (process_line n line before))"
    using assms by (simp add: loadCoursesFromFile_def load_loop_split split: prod.splits)
  then show ?thesis
    by (simp add: process_line_blank process_line_short process_line_no_id digits_value_to_string)
qed

theorem skipped_lines_never_abort_witness:
  "sample_fs ''courses.csv'' = Some (file_of sample_lines) \<and>
   getlines [] (file_of sample_lines) =
     [''csci300,Foo,csci101,math201'', ''CSCI101,Bar'', '' '', ''x'', '',t'', ''csci200,,csci101,,''] \<and>
   trim '' '' = [] \<and>
   process_line 3 '' '' (load_loop 0 [''csci300,Foo,csci101,math201'', ''CSCI101,Bar''] ([], [])) =
     load_loop 0 [''csci300,Foo,csci101,math201'', ''CSCI101,Bar''] ([], []) \<and>
   length (parseCSVLine ''x'') = 1 \<and>
   snd (process_line 4 ''x'' (load_loop 0 [''csci300,Foo,csci101,math201'', ''CSCI101,Bar'', '' ''] ([], []))) =
     [''Line 4 skipped: fewer than 2 fields''] \<and>
   parseCSVLine '',t'' = ['''', ''t''] \<and>
   snd (process_line 5 '',t''
         (load_loop 0 [''csci300,Foo,csci101,math201'', ''CSCI101,Bar'', '' '', ''x''] ([], []))) =
     [''Line 4 skipped: fewer than 2 fields'', ''Line 5 skipped: empty course ID''] \<and>
   loadCoursesFromFile sample_fs ''courses.csv'' [] [] =
     (True, load_loop 5 [''csci200,,csci101,,'']
        (process_line 5 '',t''
          (load_loop 0 [''csci300,Foo,csci101,math201'', ''CSCI101,Bar'', '' '', ''x''] ([], []))))"
proof -
  have f: "sample_fs ''courses.csv'' = Some (file_of sample_lines)"
    by (simp add: sample_fs_def)
  have g: "getlines [] (file_of sample_lines) =
     [''csci300,Foo,csci101,math201'', ''CSCI101,Bar'', '' '', ''x'', '',t'', ''csci200,,csci101,,'']"
    by code_simp
  have g3: "getlines [] (file_of sample_lines) =
     [''csci300,Foo,csci101,math201'', ''CSCI101,Bar''] @ '' '' # [''x'', '',t'', ''csci200,,csci101,,'']"
    by (simp add: g)
  have g4: "getlines [] (file_of sample_lines) =
     [''csci300,Foo,csci101,math201'', ''CSCI101,Bar'', '' ''] @ ''x'' # ['',t'', ''csci200,,csci101,,'']"
    by (simp add: g)
  have g5: "getlines [] (file_of sample_lines) =
     [''csci300,Foo,csci101,math201'', ''CSCI101,Bar'', '' '', ''x''] @ '',t'' # [''csci200,,csci101,,'']"
    by (simp add: g)
  have t3: "trim '' '' = []" by code_simp
  have t4: "trim ''x'' \<noteq> []" by code_simp
  have p4: "length (parseCSVLine ''x'') = 1" by code_simp
  have t5: "trim '',t'' \<noteq> []" by code_simp
  have p5: "parseCSVLine '',t'' = ['''', ''t'']" by code_simp
  have i5: "trim (parseCSVLine '',t'' ! 0) = []" by code_simp
  have s4: "to_string 4 = ''4''" by code_simp
  have s5: "to_string 5 = ''5''" by code_simp
  define b3 where "b3 = load_loop 0 [''csci300,Foo,csci101,math201'', ''CSCI101,Bar''] ([], [])"
  define b4 where "b4 = load_loop 0 [''csci300,Foo,csci101,math201'', ''CSCI101,Bar'', '' ''] ([], [])"
  define b5 where
    "b5 = load_loop 0 [''csci300,Foo,csci101,math201'', ''CSCI101,Bar'', '' '', ''x''] ([], [])"
  have s4': "snd b4 = []"
    unfolding b4_def by code_simp
  have s5': "snd b5 = [''Line 4 skipped: fewer than 2 fields'']"
    unfolding b5_def by code_simp
  have n3: "3 = Suc (length [''csci300,Foo,csci101,math201'', ''CSCI101,Bar''])" by simp
  have n4: "4 = Suc (length [''csci300,Foo,csci101,math201'', ''CSCI101,Bar'', '' ''])" by simp
  have n5: "5 = Suc (length [''csci300,Foo,csci101,math201'', ''CSCI101,Bar'', '' '', ''x''])" by simp
  note w3 = skipped_lines_never_abort[of sample_fs "''courses.csv''" "file_of sample_lines"
      "[''csci300,Foo,csci101,math201'', ''CSCI101,Bar'']" "'' ''"
      "[''x'', '',t'', ''csci200,,csci101,,'']" 3 b3 "[]" "[]", OF f g3 n3 b3_def]
  note w4 = skipped_lines_never_abort[of sample_fs "''courses.csv''" "file_of sample_lines"
      "[''csci300,Foo,csci101,math201'', ''CSCI101,Bar'', '' '']" "''x''"
      "['',t'', ''csci200,,csci101,,'']" 4 b4 "[]" "[]", OF f g4 n4 b4_def]
  note w5 = skipped_lines_never_abort[of sample_fs "''courses.csv''" "file_of sample_lines"
      "[''csci300,Foo,csci101,math201'', ''CSCI101,Bar'', '' '', ''x'']" "'',t''"
      "[''csci200,,csci101,,'']" 5 b5 "[]" "[]", OF f g5 n5 b5_def]
  from w3 t3 have r3: "process_line 3 '' '' b3 = b3"
    by blast
  from w4 t4 p4 have "process_line 4 ''x'' b4 =
      (fst b4, snd b4 @ [''Line '' @ to_string 4 @ '' skipped: fewer than 2 fields''])"
    by simp
  then have r4: "snd (process_line 4 ''x'' b4) = [''Line 4 skipped: fewer than 2 fields'']"
    by (simp add: s4' s4)
  from w5 t5 p5 i5 have "process_line 5 '',t'' b5 =
      (fst b5, snd b5 @ [''Line '' @ to_string 5 @ '' skipped: empty course ID''])"
    by simp
  then have r5: "snd (process_line 5 '',t'' b5) =
     [''Line 4 skipped: fewer than 2 fields'', ''Line 5 skipped: empty course ID'']"
    by (simp add: s5' s5)
  from w5 have r: "loadCoursesFromFile sample_fs ''courses.csv'' [] [] =
     (True, load_loop 5 [''csci200,,csci101,,''] (process_line 5 '',t'' b5))"
    by blast
  from f g t3 r3 p4 r4 p5 r5 r show ?thesis
    unfolding b3_def b4_def b5_def by blast
qed

text \<open>
  C5. printCourseInfo answers a query as it answers the trimmed and uppercased query. A query
  that is empty after trimming, such as one made of whitespace only, gets the single line
  "Error: empty course ID.". A query that is not empty after trimming and whose normalized
  form is no key of the catalog, or is the key of a record with an empty title, gets the
  single line "Course not found: " followed by the normalized query, which is a different
  line. The menu's handler returns the state it was given.
\<close>

theorem describe_errors:
  "printCourseInfo cat q = printCourseInfo cat (toUpper (trim q)) \<and>
   (trim q = [] \<longrightarrow> printCourseInfo cat q = [''Error: empty course ID.'']) \<and>
   ((\<forall>ch \<in> set q. isspace ch) \<longrightarrow> printCourseInfo cat q = [''Error: empty course ID.'']) \<and>
   (trim q \<noteq> [] \<and>
    (map_find cat (toUpper (trim q)) = None \<or>
     (\<exists>c. map_find cat (toUpper (trim q)) = Some c \<and> title c = [])) \<longrightarrow>
      printCourseInfo cat q = [''Course not found: '' @ toUpper (trim q)] \<and>
      printCourseInfo cat q \<noteq> [''Error: empty course ID.'']) \<and>
   fst (menu_print_course st q) = st"
proof -
  have "printCourseInfo cat q = [''Error: empty course ID.'']" if "\<forall>ch \<in> set q. isspace ch"
    using that by (simp add: printCourseInfo_empty trim_Nil_iff)
  moreover have "fst (menu_print_course st q) = st"
    by (simp add: menu_print_course_def)
  moreover have "printCourseInfo cat q = [''Course not found: '' @ toUpper (trim q)] \<and>
      printCourseInfo cat q \<noteq> [''Error: empty course ID.'']"
    if "trim q \<noteq> [] \<and> (map_find cat (toUpper (trim q)) = None \<or>
         (\<exists>c. map_find cat (toUpper (trim q)) = Some c \<and> title c = []))"
    using that by (auto simp: printCourseInfo_missing printCourseInfo_placeholder)
  ultimately show ?thesis
    using printCourseInfo_normalizes[of cat q] printCourseInfo_empty[of q cat] by blast
qed

theorem describe_errors_witness:
  "trim ''   '' = [] \<and> printCourseInfo sample_catalog ''   '' = [''Error: empty course ID.''] \<and>
   printCourseInfo sample_catalog '''' = [''Error: empty course ID.''] \<and>
   trim '' csci999 '' \<noteq> [] \<and> map_find sample_catalog ''CSCI999'' = None \<and>
   printCourseInfo sample_catalog '' csci999 '' = [''Course not found: CSCI999''] \<and>
   map_find sample_catalog ''MATH201'' = Some \<lparr>id_c = ''MATH201'', title = [], prereqs = []\<rparr> \<and>
   printCourseInfo sample_catalog ''math201'' = [''Course not found: MATH201''] \<and>
   fst (menu_print_course \<lparr>courses = sample_catalog, dataLoaded = True\<rparr> ''math201'') =
     \<lparr>courses = sample_catalog, dataLoaded = True\<rparr>"
proof -
  have t1: "trim ''   '' = []" by code_simp
  have t0: "trim '''' = []" by code_simp
  have t2: "trim '' csci999 '' \<noteq> []" by code_simp
  have u2: "toUpper (trim '' csci999 '') = ''CSCI999''" by code_simp
  have f2: "map_find sample_catalog ''CSCI999'' = None" by code_simp
  have t3: "trim ''math201'' \<noteq> []" by code_simp
  have u3: "toUpper (trim ''math201'') = ''MATH201''" by code_simp
  have f3: "map_find sample_catalog ''MATH201'' = Some \<lparr>id_c = ''MATH201'', title = [], prereqs = []\<rparr>"
    by code_simp
  from describe_errors[of sample_catalog "''   ''"] t1
  have r1: "printCourseInfo sample_catalog ''   '' = [''Error: empty course ID.'']" by blast
  from describe_errors[of sample_catalog "''''"] t0
  have r0: "printCourseInfo sample_catalog '''' = [''Error: empty course ID.'']" by blast
  note d2 = describe_errors[of sample_catalog "'' csci999 ''", unfolded u2]
  from d2 t2 f2
  have "printCourseInfo sample_catalog '' csci999 '' = [''Course not found: '' @ ''CSCI999'']"
    by blast
  then have r2: "printCourseInfo sample_catalog '' csci999 '' = [''Course not found: CSCI999'']"
    by simp
  note d3 = describe_errors[of sample_catalog "''math201''"
      "\<lparr>courses = sample_catalog, dataLoaded = True\<rparr>", unfolded u3]
  have e3: "\<exists>c. map_find sample_catalog ''MATH201'' = Some c \<and> title c = []"
    using f3 by simp
  from d3 t3 e3
  have "printCourseInfo sample_catalog ''math201'' = [''Course not found: '' @ ''MATH201'']"
    by blast
  then have r3: "printCourseInfo sample_catalog ''math201'' = [''Course not found: MATH201'']"
    by simp
  from d3
  have r4: "fst (menu_print_course \<lparr>courses = sample_catalog, dataLoaded = True\<rparr> ''math201'') =
     \<lparr>courses = sample_catalog, dataLoaded = True\<rparr>"
    by blast
  from t1 r1 r0 t2 f2 r2 f3 r3 r4 show ?thesis by blast
qed

text \<open>
  C6. For a query that is not empty after trimming and whose normalized form is the key of
  a record with a non-empty title, printCourseInfo writes an empty line, the record's
  identifier and title, then "Prerequisites: None" when the record has no prerequisite and
  otherwise "Prerequisites:" followed by exactly one line per stored prerequisite, in stored
  order, repeats included, and a closing empty line. The line of a prerequisite comes from
  a single lookup of that identifier: the identifier and title of the record found when its
  title is not empty, and the identifier as stored with "Title unknown" otherwise.
\<close>

theorem describe_lists_prereqs:
  assumes "trim q \<noteq> []" and "map_find cat (toUpper (trim q)) = Some c" and "title c \<noteq> []"
  shows "printCourseInfo cat q =
           ['''', id_c c @ '': '' @ title c] @
           (if prereqs c = [] then [''Prerequisites: None'']
            else ''Prerequisites:'' # map (prereq_line cat) (prereqs c)) @
           [''''] \<and>
         (\<forall>pid p. map_find cat pid = Some p \<and> title p \<noteq> [] \<longrightarrow>
            prereq_line cat pid = ''  - '' @ id_c p @ '': '' @ title p) \<and>
         (\<forall>pid p. map_find cat pid = Some p \<and> title p = [] \<longrightarrow>
            prereq_line cat pid = ''  - '' @ pid @ '': Title unknown'') \<and>
         (prereqs c \<noteq> [] \<longrightarrow>
            length (printCourseInfo cat q) = length (prereqs c) + 4 \<and>
            (\<forall>i < length (prereqs c). printCourseInfo cat q ! (i + 3) = prereq_line cat (prereqs c ! i)))"
proof -
  let ?out = "['''', id_c c @ '': '' @ title c] @
           (if prereqs c = [] then [''Prerequisites: None'']
            else ''Prerequisites:'' # map (prereq_line cat) (prereqs c)) @
           ['''']"
  have out: "printCourseInfo cat q = ?out"
    using assms by (rule printCourseInfo_found)
  have nth: "?out ! (i + 3) = prereq_line cat (prereqs c ! i)"
    if "prereqs c \<noteq> []" "i < length (prereqs c)" for i
    using that by (simp add: nth_append)
  have len: "prereqs c \<noteq> [] \<Longrightarrow> length ?out = length (prereqs c) + 4"
    by simp
  show ?thesis
    unfolding out using nth len by (simp add: prereq_line_def)
qed

theorem describe_lists_prereqs_witness:
  "trim '' csci300 '' \<noteq> [] \<and>
   map_find sample_catalog ''CSCI300'' =
     Some \<lparr>id_c = ''CSCI300'', title = ''Foo'', prereqs = [''CSCI101'', ''MATH201'']\<rparr> \<and>
   printCourseInfo sample_catalog '' csci300 '' =
     ['''', ''CSCI300: Foo'', ''Prerequisites:'', ''  - CSCI101: Bar'',
      ''  - MATH201: Title unknown'', ''''] \<and>
   printCourseInfo sample_catalog ''CSCI101'' = ['''', ''CSCI101: Bar'', ''Prerequisites: None'', '''']"
proof -
  have t1: "trim '' csci300 '' \<noteq> []" by code_simp
  have u1: "toUpper (trim '' csci300 '') = ''CSCI300''" by code_simp
  have f1: "map_find sample_catalog ''CSCI300'' =
     Some \<lparr>id_c = ''CSCI300'', title = ''Foo'', prereqs = [''CSCI101'', ''MATH201'']\<rparr>" by code_simp
  have f1': "map_find sample_catalog (toUpper (trim '' csci300 '')) =
     Some \<lparr>id_c = ''CSCI300'', title = ''Foo'', prereqs = [''CSCI101'', ''MATH201'']\<rparr>"
    unfolding u1 by (rule f1)
  have t2: "trim ''CSCI101'' \<noteq> []" by code_simp
  have f2: "map_find sample_catalog (toUpper (trim ''CSCI101'')) =
     Some \<lparr>id_c = ''CSCI101'', title = ''Bar'', prereqs = []\<rparr>" by code_simp
  have l1: "prereq_line sample_catalog ''CSCI101'' = ''  - CSCI101: Bar''" by code_simp
  have l2: "prereq_line sample_catalog ''MATH201'' = ''  - MATH201: Title unknown''" by code_simp
  from describe_lists_prereqs[OF t1 f1'] 
  have r1: "printCourseInfo sample_catalog '' csci300 '' =
     ['''', ''CSCI300: Foo'', ''Prerequisites:'', ''  - CSCI101: Bar'',
      ''  - MATH201: Title unknown'', '''']"
    by (simp add: l1 l2)
  from describe_lists_prereqs[OF t2 f2]
  have r2: "printCourseInfo sample_catalog ''CSCI101'' = ['''', ''CSCI101: Bar'', ''Prerequisites: None'', '''']"
    by simp
  from t1 f1 r1 r2 show ?thesis by blast
qed

text \<open>
  C7. For the catalog left by a successful load, printSortedCourseList writes its three
  header lines, then one line "identifier, title" for each pair of the listing, then an
  empty line. The listing holds exactly the pairs of a key and the title stored under it
  for the records whose title is not empty, in ascending order of the identifiers as
  strings, each identifier once. The call is a function of the catalog alone, and the
  menu's handler returns the state it was given.
\<close>

theorem listing_sorted_titled:
  assumes "loadCoursesFromFile fs filename c0 w0 = (True, cat, w)"
  shows "printSortedCourseList cat =
           Inr (['''', ''Computer Science Course List'', ''----------------------------''] @
                map (\<lambda>(i, t). i @ '', '' @ t) (listSorted cat) @ ['''']) \<and>
         sorted (map fst (listSorted cat)) \<and> distinct (map fst (listSorted cat)) \<and>
         (\<forall>k t. (k, t) \<in> set (listSorted cat) \<longleftrightarrow>
                 (\<exists>c. map_find cat k = Some c \<and> title c = t \<and> t \<noteq> [])) \<and>
         (dataLoaded st \<and> courses st = cat \<longrightarrow>
            menu_print_list st =
              Inr (st, ['''', ''Computer Science Course List'', ''----------------------------''] @
                       map (\<lambda>(i, t). i @ '', '' @ t) (listSorted cat) @ ['''']))"
proof -
  have ok: "catalog_ok cat" using assms by (rule loaded_catalog_ok)
  note out = printSortedCourseList_eq[OF ok]
  have "dataLoaded st \<and> courses st = cat \<longrightarrow>
            menu_print_list st =
              Inr (st, ['''', ''Computer Science Course List'', ''----------------------------''] @
                       map (\<lambda>(i, t). i @ '', '' @ t) (listSorted cat) @ [''''])"
    by (auto simp: menu_print_list_def out)
  with out listSorted_keys[OF ok] listSorted_set[OF ok] show ?thesis by blast
qed

theorem listing_sorted_titled_witness:
  "loadCoursesFromFile sample_fs ''courses.csv'' [] [] = (True, sample_catalog, sample_warnings) \<and>
   hd sample_lines = ''csci300,Foo,csci101,math201'' \<and>
   listSorted sample_catalog = [(''CSCI101'', ''Bar''), (''CSCI300'', ''Foo'')] \<and>
   printSortedCourseList sample_catalog =
     Inr ['''', ''Computer Science Course List'', ''----------------------------'',
          ''CSCI101, Bar'', ''CSCI300, Foo'', ''''] \<and>
   menu_print_list \<lparr>courses = sample_catalog, dataLoaded = True\<rparr> =
     Inr (\<lparr>courses = sample_catalog, dataLoaded = True\<rparr>,
          ['''', ''Computer Science Course List'', ''----------------------------'',
           ''CSCI101, Bar'', ''CSCI300, Foo'', ''''])"
proof -
  have l: "listSorted sample_catalog = [(''CSCI101'', ''Bar''), (''CSCI300'', ''Foo'')]"
    by code_simp
  have h: "hd sample_lines = ''csci300,Foo,csci101,math201''"
    by (simp add: sample_lines_def)
  note t = listing_sorted_titled[OF sample_load, of "\<lparr>courses = sample_catalog, dataLoaded = True\<rparr>",
      unfolded l]
  from t have r1: "printSortedCourseList sample_catalog =
     Inr ['''', ''Computer Science Course List'', ''----------------------------'',
          ''CSCI101, Bar'', ''CSCI300, Foo'', '''']"
    by simp
  from t have r2: "menu_print_list \<lparr>courses = sample_catalog, dataLoaded = True\<rparr> =
     Inr (\<lparr>courses = sample_catalog, dataLoaded = True\<rparr>,
          ['''', ''Computer Science Course List'', ''----------------------------'',
           ''CSCI101, Bar'', ''CSCI300, Foo'', ''''])"
    by simp
  from sample_load h l r1 r2 show ?thesis by blast
qed

end
